theory Spec2Isabelle
  imports Main "HOL-Library.AList"
begin

section \<open>The concurrency controller of Backend/utils/concurrency.util.js\<close>

text \<open>
  The class \<open>ConcurrencyController\<close> runs on a single-threaded event loop. Every method
  runs to completion; an \<open>async\<close> method runs synchronously up to its first \<open>await\<close>
  and is resumed later, when the awaited promise settles. The model therefore has one
  function per method for the synchronous part, and one function per resumption point
  (the task function settles, the retry delay ends, the timeout timer fires).

  Time is not measured: a timer or a delay may end at any point of a trace, and the
  order of the events is what a trace fixes. An event for an execution that does not
  exist, or that is not suspended at that point, cannot occur and changes nothing.

  The objects of the source are kept as records. \<open>Date.now()\<close> is an argument \<open>now\<close>.
  A JavaScript \<open>Map\<close> is an association list with the operations of \<open>AList\<close>
  (\<open>set\<close> keeps the position of a key that is already there, as \<open>Map.set\<close> does), and its
  \<open>size\<close> is the length of the list. Counts (concurrency, queue size, retries, delays) are
  natural numbers; an absent option or field is \<open>None\<close>. The optional observer
  callbacks and the event listeners are not modelled: the descriptors considered here
  carry none.
\<close>

subsection \<open>Values\<close>

text \<open>
  The errors the controller creates, by their message, and the error a task function
  rejects with:
  \<^item> \<open>InvalidTaskConfig\<close>: "task configuration invalid: id or task missing";
  \<^item> \<open>QueueFull n\<close>: "queue is full, maximum capacity: n";
  \<^item> \<open>TaskAborted\<close>: "task was aborted", thrown by \<open>runTaskWithRetry\<close>;
  \<^item> \<open>TaskCancelled\<close>: "task was cancelled", used by \<open>cancelTask\<close>;
  \<^item> \<open>QueueCleared\<close>: "queue was cleared", used by \<open>clearQueue\<close>;
  \<^item> \<open>TaskError e\<close>: the value \<open>e\<close> thrown by the task function.
\<close>

datatype js_error =
    InvalidTaskConfig
  | QueueFull nat
  | TaskAborted
  | TaskCancelled
  | QueueCleared
  | TaskError string

text \<open>
  The values of the two computed fields of a statistics snapshot. \<open>PercentText a b\<close>
  stands for the string \<open>(a / b * 100).toFixed(2) + '%'\<close>, whose digits come from a
  floating-point division and are not computed here.
\<close>

datatype js_value = Undefined | Num int | Str string | PercentText nat nat

text \<open>\<open>x || d\<close> on an optional count: \<open>undefined\<close> and \<open>0\<close> are falsy.\<close>

definition or_default :: "nat option \<Rightarrow> nat \<Rightarrow> nat" where
  "or_default v d = (case v of None \<Rightarrow> d | Some n \<Rightarrow> if n = 0 then d else n)"

text \<open>
  The truth value of an optional timestamp, and \<open>x || d\<close> on it: \<open>null\<close> and \<open>0\<close>
  are falsy.
\<close>

definition truthy_time :: "int option \<Rightarrow> bool" where
  "truthy_time v = (case v of None \<Rightarrow> False | Some n \<Rightarrow> n \<noteq> 0)"

definition time_or :: "int option \<Rightarrow> int \<Rightarrow> int" where
  "time_or v d = (case v of None \<Rightarrow> d | Some n \<Rightarrow> if n = 0 then d else n)"

text \<open>The truth value of an optional string: \<open>undefined\<close> and \<open>''\<close> are falsy.\<close>

definition truthy_string :: "string option \<Rightarrow> bool" where
  "truthy_string v = (case v of None \<Rightarrow> False | Some s \<Rightarrow> s \<noteq> [])"

subsection \<open>Tasks\<close>

text \<open>
  \<open>TaskConfig\<close>: \<open>task_fn\<close> names the caller's asynchronous function (the field
  \<open>task\<close>), which the model never calls: its outcomes arrive as events.
\<close>

record task_config =
  task_id :: "string option"
  task_fn :: "nat option"
  task_data :: "string option"
  priority :: "int option"
  retries :: "nat option"
  task_retryDelay :: "nat option"
  timeout :: "nat option"

text \<open>
  The task object of \<open>addTask\<close>: \<open>{...taskConfig, resolve, reject, createdAt, attempts}\<close>.
  \<open>promise\<close> identifies the promise that \<open>resolve\<close> and \<open>reject\<close> settle; it also
  serves as the identity of the task object.
\<close>

record queued_task = task_config +
  promise :: nat
  createdAt :: int
  attempts :: nat

record task_result =
  res_id :: "string option"
  success :: bool
  res_data :: "string option"
  res_error :: "js_error option"
  duration :: int
  retryCount :: int

datatype promise_state =
    Pending
  | Resolved task_result
  | RejectedResult task_result
  | RejectedError js_error

text \<open>\<open>resolve\<close> and \<open>reject\<close> act on a pending promise only.\<close>

definition settle :: "nat \<Rightarrow> promise_state \<Rightarrow> (nat \<times> promise_state) list \<Rightarrow> (nat \<times> promise_state) list" where
  "settle p s ps = AList.map_entry p (\<lambda>old. if old = Pending then s else old) ps"

subsection \<open>Running executions\<close>

text \<open>
  One activation of \<open>executeTask\<close>, suspended inside \<open>runTaskWithRetry\<close>: at
  \<open>await task.task(task.data, signal)\<close> (\<open>AwaitTask\<close>) or at
  \<open>await this.delay(delay)\<close> (\<open>AwaitDelay\<close>). \<open>aborted\<close> is \<open>signal.aborted\<close> of
  the activation's \<open>AbortController\<close>, \<open>timerPending\<close> says that the timer of
  \<open>setTimeout\<close> has neither fired nor been cleared, \<open>attempt\<close> is the loop variable,
  and \<open>invocations\<close> counts the calls of the task function so far.
\<close>

datatype phase = AwaitTask | AwaitDelay

record execution =
  ex_task :: queued_task
  ex_startTime :: int
  aborted :: bool
  timerPending :: bool
  timerMs :: nat
  attempt :: nat
  phase :: phase
  delayMs :: nat
  lastError :: "js_error option"
  invocations :: nat

subsection \<open>The controller\<close>

record stats =
  totalTasks :: nat
  stats_completedTasks :: nat
  failedTasks :: nat
  retriedTasks :: nat
  startTime :: "int option"
  endTime :: "int option"

text \<open>
  \<open>runningTasks\<close> maps a task id to the task object, given by its promise;
  \<open>executions\<close> holds the suspended activations by that same identity, and
  \<open>promises\<close> the state of every promise \<open>addTask\<close> has returned.
\<close>

record controller =
  maxConcurrency :: nat
  maxQueueSize :: nat
  retryDelay :: nat
  defaultTimeout :: nat
  taskQueue :: "queued_task list"
  runningTasks :: "(string option \<times> nat) list"
  completedTasks :: "(string option \<times> task_result) list"
  isRunning :: bool
  isPaused :: bool
  stats :: stats
  executions :: "(nat \<times> execution) list"
  promises :: "(nat \<times> promise_state) list"
  promiseCount :: nat

record options =
  opt_maxConcurrency :: "nat option"
  opt_maxQueueSize :: "nat option"
  opt_retryDelay :: "nat option"
  opt_defaultTimeout :: "nat option"

definition constructor :: "options \<Rightarrow> controller" where
  "constructor opts =
     \<lparr> maxConcurrency = or_default (opt_maxConcurrency opts) 5,
       maxQueueSize = or_default (opt_maxQueueSize opts) 1000,
       retryDelay = or_default (opt_retryDelay opts) 1000,
       defaultTimeout = or_default (opt_defaultTimeout opts) 30000,
       taskQueue = [],
       runningTasks = [],
       completedTasks = [],
       isRunning = False,
       isPaused = False,
       stats = \<lparr> totalTasks = 0, stats_completedTasks = 0, failedTasks = 0,
                 retriedTasks = 0, startTime = None, endTime = None \<rparr>,
       executions = [],
       promises = [],
       promiseCount = 0 \<rparr>"

subsection \<open>insertTaskByPriority\<close>

text \<open>
  \<open>this.taskQueue[i].priority >= priority\<close>: the left side is the field as the caller
  gave it, and \<open>undefined >= n\<close> is false.
\<close>

definition priority_ge :: "int option \<Rightarrow> int \<Rightarrow> bool" where
  "priority_ge q p = (case q of None \<Rightarrow> False | Some a \<Rightarrow> a \<ge> p)"

text \<open>
  The loop \<open>for (i = length - 1; i >= 0; i--)\<close> with its \<open>break\<close>:
  \<open>scanBack p q n\<close> looks at the indices \<open>n - 1\<close> down to \<open>0\<close> and returns the
  \<open>insertIndex\<close> the loop assigns, if it assigns one.
\<close>

fun scanBack :: "int \<Rightarrow> queued_task list \<Rightarrow> nat \<Rightarrow> nat option" where
  "scanBack p q 0 = None"
| "scanBack p q (Suc i) =
     (if priority_ge (priority (q ! i)) p then Some (Suc i) else scanBack p q i)"

definition insertIndex :: "queued_task \<Rightarrow> queued_task list \<Rightarrow> nat" where
  "insertIndex t q =
     (let p = (case priority t of None \<Rightarrow> 0 | Some n \<Rightarrow> n)
      in case scanBack p q (length q) of None \<Rightarrow> length q | Some k \<Rightarrow> k)"

definition insertTaskByPriority :: "queued_task \<Rightarrow> controller \<Rightarrow> controller" where
  "insertTaskByPriority t c =
     (let q = taskQueue c; k = insertIndex t q
      in c\<lparr>taskQueue := take k q @ [t] @ drop k q\<rparr>)"

subsection \<open>executeTask and processNextTask\<close>

text \<open>
  \<open>executeTask\<close> up to its first suspension: \<open>task.attempts++\<close>, a new
  \<open>AbortController\<close>, \<open>runningTasks.set\<close>, \<open>setTimeout\<close>, and the first pass of the
  loop of \<open>runTaskWithRetry\<close>, which finds the new signal not aborted and calls the
  task function.
\<close>

definition executeTask :: "int \<Rightarrow> queued_task \<Rightarrow> controller \<Rightarrow> controller" where
  "executeTask now t c =
     (let t' = t\<lparr>attempts := attempts t + 1\<rparr>;
          e = \<lparr> ex_task = t', ex_startTime = now, aborted = False, timerPending = True,
                timerMs = or_default (timeout t) (defaultTimeout c),
                attempt = 0, phase = AwaitTask, delayMs = 0, lastError = None,
                invocations = 1 \<rparr>
      in c\<lparr>runningTasks := AList.update (task_id t) (promise t) (runningTasks c),
           executions := AList.update (promise t) e (executions c)\<rparr>)"

definition processNextTask :: "int \<Rightarrow> controller \<Rightarrow> controller" where
  "processNextTask now c =
     (if \<not> isRunning c \<or> isPaused c \<or> length (runningTasks c) \<ge> maxConcurrency c then c
      else case taskQueue c of
             [] \<Rightarrow> c
           | t # q \<Rightarrow> executeTask now t (c\<lparr>taskQueue := q\<rparr>))"

text \<open>The \<open>finally\<close> block of \<open>executeTask\<close>; the activation ends with it.\<close>

definition finish :: "int \<Rightarrow> nat \<Rightarrow> queued_task \<Rightarrow> controller \<Rightarrow> controller" where
  "finish now h t c =
     processNextTask now
       (c\<lparr>runningTasks := AList.delete (task_id t) (runningTasks c),
          executions := AList.delete h (executions c)\<rparr>)"

text \<open>The rest of the \<open>try\<close> block of \<open>executeTask\<close>, after \<open>runTaskWithRetry\<close> returned.\<close>

definition succeed :: "int \<Rightarrow> nat \<Rightarrow> execution \<Rightarrow> string \<Rightarrow> controller \<Rightarrow> controller" where
  "succeed now h e d c =
     (let t = ex_task e;
          r = \<lparr> res_id = task_id t, success = True, res_data = Some d, res_error = None,
                duration = now - ex_startTime e, retryCount = int (attempts t) - 1 \<rparr>
      in finish now h t
           (c\<lparr>completedTasks := AList.update (task_id t) r (completedTasks c),
              stats := (stats c)\<lparr>stats_completedTasks := stats_completedTasks (stats c) + 1\<rparr>,
              promises := settle (promise t) (Resolved r) (promises c)\<rparr>))"

text \<open>
  The \<open>catch\<close> block of \<open>executeTask\<close>, after \<open>runTaskWithRetry\<close> threw \<open>err\<close>
  (\<open>None\<close> for \<open>undefined\<close>, the value of \<open>lastError\<close> before any error).
\<close>

definition fail :: "int \<Rightarrow> nat \<Rightarrow> execution \<Rightarrow> js_error option \<Rightarrow> controller \<Rightarrow> controller" where
  "fail now h e err c =
     (let t = ex_task e;
          r = \<lparr> res_id = task_id t, success = False, res_data = None, res_error = err,
                duration = now - ex_startTime e, retryCount = int (attempts t) - 1 \<rparr>
      in finish now h t
           (c\<lparr>completedTasks := AList.update (task_id t) r (completedTasks c),
              stats := (stats c)\<lparr>failedTasks := failedTasks (stats c) + 1\<rparr>,
              promises := settle (promise t) (RejectedResult r) (promises c)\<rparr>))"

subsection \<open>runTaskWithRetry\<close>

text \<open>
  The \<open>catch\<close> block inside the loop: remember the error; before the last pass count a
  retry and wait, otherwise leave the loop and \<open>throw lastError\<close> into \<open>executeTask\<close>.
\<close>

definition attemptFailed :: "int \<Rightarrow> nat \<Rightarrow> execution \<Rightarrow> js_error \<Rightarrow> controller \<Rightarrow> controller" where
  "attemptFailed now h e err c =
     (let t = ex_task e; maxRetries = or_default (retries t) 0 in
      if attempt e < maxRetries
      then c\<lparr>stats := (stats c)\<lparr>retriedTasks := retriedTasks (stats c) + 1\<rparr>,
             executions := AList.update h
               (e\<lparr>lastError := Some err, phase := AwaitDelay,
                  delayMs := or_default (task_retryDelay t) (retryDelay c)\<rparr>)
               (executions c)\<rparr>
      else fail now h e (Some err) c)"

datatype outcome = Fulfil string | Reject string

text \<open>The task function of the execution with identity \<open>h\<close> settles.\<close>

definition taskSettled :: "nat \<Rightarrow> outcome \<Rightarrow> int \<Rightarrow> controller \<Rightarrow> controller" where
  "taskSettled h out now c =
     (case map_of (executions c) h of
        None \<Rightarrow> c
      | Some e \<Rightarrow>
          if phase e \<noteq> AwaitTask then c
          else (case out of
                  Fulfil d \<Rightarrow> succeed now h (e\<lparr>timerPending := False\<rparr>) d c
                | Reject x \<Rightarrow> attemptFailed now h e (TaskError x) c))"

text \<open>
  The retry delay of the execution \<open>h\<close> ends: \<open>attempt++\<close>, the loop condition, the
  check of \<open>signal.aborted\<close>, and the next call of the task function.
\<close>

definition delayDone :: "nat \<Rightarrow> int \<Rightarrow> controller \<Rightarrow> controller" where
  "delayDone h now c =
     (case map_of (executions c) h of
        None \<Rightarrow> c
      | Some e \<Rightarrow>
          if phase e \<noteq> AwaitDelay then c
          else (let e1 = e\<lparr>attempt := attempt e + 1\<rparr> in
                if \<not> attempt e1 \<le> or_default (retries (ex_task e1)) 0
                then fail now h e1 (lastError e1) c
                else if aborted e1 then attemptFailed now h e1 TaskAborted c
                else c\<lparr>executions := AList.update h
                         (e1\<lparr>phase := AwaitTask, invocations := invocations e1 + 1\<rparr>)
                         (executions c)\<rparr>))"

text \<open>The timer set by \<open>executeTask\<close> fires: \<open>abortController.abort()\<close>.\<close>

definition timerFired :: "nat \<Rightarrow> controller \<Rightarrow> controller" where
  "timerFired h c =
     (case map_of (executions c) h of
        None \<Rightarrow> c
      | Some e \<Rightarrow>
          if timerPending e
          then c\<lparr>executions := AList.update h (e\<lparr>aborted := True, timerPending := False\<rparr>)
                                 (executions c)\<rparr>
          else c)"

subsection \<open>The public methods\<close>

text \<open>\<open>addTask\<close> returns the new promise and settles it at once when it rejects the task.\<close>

definition addTask :: "task_config \<Rightarrow> int \<Rightarrow> controller \<Rightarrow> nat \<times> controller" where
  "addTask cfg now c =
     (let p = promiseCount c;
          c0 = c\<lparr>promises := AList.update p Pending (promises c), promiseCount := p + 1\<rparr>
      in if \<not> truthy_string (task_id cfg) \<or> task_fn cfg = None
         then (p, c0\<lparr>promises := settle p (RejectedError InvalidTaskConfig) (promises c0)\<rparr>)
         else if length (taskQueue c0) \<ge> maxQueueSize c0
         then (p, c0\<lparr>promises := settle p (RejectedError (QueueFull (maxQueueSize c0)))
                                    (promises c0)\<rparr>)
         else (let t = task_config.extend cfg
                         (queued_task.fields p now 0);
                   c1 = insertTaskByPriority t c0;
                   c2 = c1\<lparr>stats := (stats c1)\<lparr>totalTasks := totalTasks (stats c1) + 1\<rparr>\<rparr>
               in (p, if isRunning c2 \<and> \<not> isPaused c2 then processNextTask now c2 else c2)))"

definition start :: "int \<Rightarrow> controller \<Rightarrow> controller" where
  "start now c =
     (if isRunning c then c
      else processNextTask now
             (c\<lparr>isRunning := True, isPaused := False,
                stats := (stats c)\<lparr>startTime := Some now\<rparr>\<rparr>))"

definition pause :: "controller \<Rightarrow> controller" where
  "pause c = c\<lparr>isPaused := True\<rparr>"

definition resume :: "int \<Rightarrow> controller \<Rightarrow> controller" where
  "resume now c = processNextTask now (c\<lparr>isPaused := False\<rparr>)"

text \<open>\<open>abort()\<close> on the controller of a task object.\<close>

definition abort :: "nat \<Rightarrow> (nat \<times> execution) list \<Rightarrow> (nat \<times> execution) list" where
  "abort h es = AList.map_entry h (\<lambda>e. e\<lparr>aborted := True\<rparr>) es"

definition stop :: "int \<Rightarrow> controller \<Rightarrow> controller" where
  "stop now c =
     c\<lparr>isRunning := False, isPaused := False,
       stats := (stats c)\<lparr>endTime := Some now\<rparr>,
       executions := fold (\<lambda>(k, h). abort h) (runningTasks c) (executions c)\<rparr>"

text \<open>\<open>findIndex\<close>: the first index whose task has the id, if any.\<close>

fun findIndex :: "string option \<Rightarrow> queued_task list \<Rightarrow> nat option" where
  "findIndex i [] = None"
| "findIndex i (t # q) =
     (if task_id t = i then Some 0 else map_option Suc (findIndex i q))"

definition cancelTask :: "string option \<Rightarrow> controller \<Rightarrow> bool \<times> controller" where
  "cancelTask i c =
     (case map_of (runningTasks c) i of
        Some h \<Rightarrow>
          (True, c\<lparr>executions := abort h (executions c),
                   runningTasks := AList.delete i (runningTasks c)\<rparr>)
      | None \<Rightarrow>
          (case findIndex i (taskQueue c) of
             Some k \<Rightarrow>
               (True, c\<lparr>taskQueue := take k (taskQueue c) @ drop (Suc k) (taskQueue c),
                        promises := settle (promise (taskQueue c ! k)) (RejectedError TaskCancelled)
                                      (promises c)\<rparr>)
           | None \<Rightarrow> (False, c)))"

definition clearQueue :: "controller \<Rightarrow> controller" where
  "clearQueue c =
     c\<lparr>promises := fold (\<lambda>t. settle (promise t) (RejectedError QueueCleared)) (taskQueue c)
                     (promises c),
       taskQueue := []\<rparr>"

subsection \<open>getStats\<close>

text \<open>
  The snapshot: the fields of \<open>this.stats\<close> spread first, then the computed fields;
  \<open>completedTasks\<close> occurs in both, and the later one replaces the spread counter.
\<close>

record stats_snapshot =
  snap_totalTasks :: nat
  snap_failedTasks :: nat
  snap_retriedTasks :: nat
  snap_startTime :: "int option"
  snap_endTime :: "int option"
  snap_duration :: js_value
  snap_queueSize :: nat
  snap_runningTasks :: nat
  snap_completedTasks :: nat
  snap_isRunning :: bool
  snap_isPaused :: bool
  snap_successRate :: js_value

definition getStats :: "int \<Rightarrow> controller \<Rightarrow> stats_snapshot" where
  "getStats now c =
     (let s = stats c;
          d = (if truthy_time (startTime s)
               then time_or (endTime s) now - time_or (startTime s) 0
               else 0)
      in \<lparr> snap_totalTasks = totalTasks s,
           snap_failedTasks = failedTasks s,
           snap_retriedTasks = retriedTasks s,
           snap_startTime = startTime s,
           snap_endTime = endTime s,
           snap_duration = Num d,
           snap_queueSize = length (taskQueue c),
           snap_runningTasks = length (runningTasks c),
           snap_completedTasks = length (completedTasks c),
           snap_isRunning = isRunning c,
           snap_isPaused = isPaused c,
           snap_successRate =
             (if totalTasks s > 0 then PercentText (stats_completedTasks s) (totalTasks s)
              else Str ''0%'') \<rparr>)"

subsection \<open>Traces\<close>

text \<open>
  Everything that can happen to a controller: a call of a public method, or the event
  loop resuming a suspended execution or firing its timer.
\<close>

datatype event =
    AddTask task_config int
  | Start int
  | Pause
  | Resume int
  | Stop int
  | CancelTask "string option"
  | ClearQueue
  | TaskSettled nat outcome int
  | DelayDone nat int
  | TimerFired nat

fun step :: "controller \<Rightarrow> event \<Rightarrow> controller" where
  "step c (AddTask cfg now) = snd (addTask cfg now c)"
| "step c (Start now) = start now c"
| "step c Pause = pause c"
| "step c (Resume now) = resume now c"
| "step c (Stop now) = stop now c"
| "step c (CancelTask i) = snd (cancelTask i c)"
| "step c ClearQueue = clearQueue c"
| "step c (TaskSettled h out now) = taskSettled h out now c"
| "step c (DelayDone h now) = delayDone h now c"
| "step c (TimerFired h) = timerFired h c"

definition run :: "controller \<Rightarrow> event list \<Rightarrow> controller" where
  "run c evs = foldl step c evs"

section \<open>Auxiliary definitions\<close>

text \<open>What the running map must satisfy for its length to be its size, and the bound.\<close>

definition running_inv :: "controller \<Rightarrow> bool" where
  "running_inv c =
     (distinct (map fst (runningTasks c)) \<and> length (runningTasks c) \<le> maxConcurrency c)"

definition plain_task :: "string \<Rightarrow> int option \<Rightarrow> nat option \<Rightarrow> task_config" where
  "plain_task i p r =
     \<lparr> task_id = Some i, task_fn = Some 0, task_data = None, priority = p, retries = r,
       task_retryDelay = None, timeout = None \<rparr>"

definition options_with :: "nat option \<Rightarrow> nat option \<Rightarrow> options" where
  "options_with mc mq =
     \<lparr> opt_maxConcurrency = mc, opt_maxQueueSize = mq, opt_retryDelay = None,
       opt_defaultTimeout = None \<rparr>"

fun isStart :: "event \<Rightarrow> bool" where
  "isStart (Start now) = True"
| "isStart ev = False"

fun isStop :: "event \<Rightarrow> bool" where
  "isStop (Stop now) = True"
| "isStop ev = False"

text \<open>
  Example states: a started controller whose only task, with \<open>r\<close> retries, has been
  rejected once by its task function and waits for its retry delay, the timer having
  fired before the rejection or not.
\<close>

definition waiting_for_retry :: "nat \<Rightarrow> bool \<Rightarrow> controller" where
  "waiting_for_retry r fired =
     run (constructor (options_with None None))
       ([Start 0, AddTask (plain_task ''t'' None (Some r)) 1]
        @ (if fired then [TimerFired 0] else [])
        @ [TaskSettled 0 (Reject ''e'') 2])"

definition first_execution :: "controller \<Rightarrow> execution" where
  "first_execution c = snd (hd (executions c))"

text \<open>
  Example state: one slot, the task \<open>A\<close> running and the task \<open>B\<close> queued behind it.
\<close>

definition one_running_one_queued :: controller where
  "one_running_one_queued =
     run (constructor (options_with (Some 1) None))
       [Start 0, AddTask (plain_task ''A'' None None) 1, AddTask (plain_task ''B'' None None) 2]"

text \<open>
  What holds of the attempt counters in every state a new controller can reach: a
  queued task has none, a task in execution has one, and every recorded result has
  \<open>retryCount = 0\<close>.
\<close>

definition attempts_inv :: "controller \<Rightarrow> bool" where
  "attempts_inv c =
     (list_all (\<lambda>t. attempts t = 0) (taskQueue c)
      \<and> list_all (\<lambda>e. attempts (ex_task e) = Suc 0) (map snd (executions c))
      \<and> list_all (\<lambda>r. retryCount r = 0) (map snd (completedTasks c)))"

section \<open>How the operations act on the fields\<close>

lemma length_update_le: "length (AList.update k v al) \<le> Suc (length al)"
  by (induction al) auto

lemma processNextTask_frame:
  "maxConcurrency (processNextTask now c) = maxConcurrency c"
  "maxQueueSize (processNextTask now c) = maxQueueSize c"
  "isRunning (processNextTask now c) = isRunning c"
  "isPaused (processNextTask now c) = isPaused c"
  "stats (processNextTask now c) = stats c"
  "completedTasks (processNextTask now c) = completedTasks c"
  "promises (processNextTask now c) = promises c"
  "promiseCount (processNextTask now c) = promiseCount c"
  by (simp_all add: processNextTask_def executeTask_def Let_def split: list.splits)

lemma processNextTask_running_inv:
  assumes "running_inv c"
  shows "running_inv (processNextTask now c)"
proof (cases "taskQueue c")
  case Nil
  with assms show ?thesis by (simp add: processNextTask_def)
next
  case (Cons t q)
  have "length (AList.update (task_id t) (promise t) (runningTasks c))
          \<le> Suc (length (runningTasks c))"
    by (rule length_update_le)
  with Cons assms show ?thesis
    by (auto simp: processNextTask_def executeTask_def Let_def running_inv_def
          distinct_update)
qed

lemma running_inv_cong:
  "runningTasks c' = runningTasks c \<Longrightarrow> maxConcurrency c' = maxConcurrency c \<Longrightarrow>
   running_inv c' = running_inv c"
  by (simp add: running_inv_def)

lemma running_inv_delete:
  assumes "running_inv c"
    and "runningTasks c' = AList.delete k (runningTasks c)"
    and "maxConcurrency c' = maxConcurrency c"
  shows "running_inv c'"
proof -
  have "length (AList.delete k (runningTasks c)) \<le> length (runningTasks c)"
    by (rule length_delete_le)
  with assms show ?thesis
    by (simp add: running_inv_def distinct_delete)
qed

lemma finish_frame:
  "maxConcurrency (finish now h t c) = maxConcurrency c"
  "maxQueueSize (finish now h t c) = maxQueueSize c"
  "isRunning (finish now h t c) = isRunning c"
  "isPaused (finish now h t c) = isPaused c"
  "stats (finish now h t c) = stats c"
  "completedTasks (finish now h t c) = completedTasks c"
  "promises (finish now h t c) = promises c"
  "promiseCount (finish now h t c) = promiseCount c"
  by (simp_all add: finish_def processNextTask_frame)

lemma finish_running_inv:
  assumes "running_inv c"
  shows "running_inv (finish now h t c)"
  unfolding finish_def
  by (rule processNextTask_running_inv, rule running_inv_delete [OF assms]) simp_all

lemma succeed_frame:
  "maxConcurrency (succeed now h e d c) = maxConcurrency c"
  "maxQueueSize (succeed now h e d c) = maxQueueSize c"
  "isRunning (succeed now h e d c) = isRunning c"
  "isPaused (succeed now h e d c) = isPaused c"
  "startTime (stats (succeed now h e d c)) = startTime (stats c)"
  "endTime (stats (succeed now h e d c)) = endTime (stats c)"
  "totalTasks (stats (succeed now h e d c)) = totalTasks (stats c)"
  "promiseCount (succeed now h e d c) = promiseCount c"
  by (simp_all add: succeed_def Let_def finish_frame)

lemma fail_frame:
  "maxConcurrency (fail now h e err c) = maxConcurrency c"
  "maxQueueSize (fail now h e err c) = maxQueueSize c"
  "isRunning (fail now h e err c) = isRunning c"
  "isPaused (fail now h e err c) = isPaused c"
  "startTime (stats (fail now h e err c)) = startTime (stats c)"
  "endTime (stats (fail now h e err c)) = endTime (stats c)"
  "totalTasks (stats (fail now h e err c)) = totalTasks (stats c)"
  "promiseCount (fail now h e err c) = promiseCount c"
  by (simp_all add: fail_def Let_def finish_frame)

lemma succeed_running_inv: "running_inv c \<Longrightarrow> running_inv (succeed now h e d c)"
  unfolding succeed_def Let_def
  by (rule finish_running_inv) (simp add: running_inv_def)

lemma fail_running_inv: "running_inv c \<Longrightarrow> running_inv (fail now h e err c)"
  unfolding fail_def Let_def
  by (rule finish_running_inv) (simp add: running_inv_def)

lemma attemptFailed_frame:
  "maxConcurrency (attemptFailed now h e err c) = maxConcurrency c"
  "maxQueueSize (attemptFailed now h e err c) = maxQueueSize c"
  "isRunning (attemptFailed now h e err c) = isRunning c"
  "isPaused (attemptFailed now h e err c) = isPaused c"
  "startTime (stats (attemptFailed now h e err c)) = startTime (stats c)"
  "endTime (stats (attemptFailed now h e err c)) = endTime (stats c)"
  "totalTasks (stats (attemptFailed now h e err c)) = totalTasks (stats c)"
  "promiseCount (attemptFailed now h e err c) = promiseCount c"
  by (simp_all add: attemptFailed_def Let_def fail_frame)

lemma attemptFailed_running_inv:
  "running_inv c \<Longrightarrow> running_inv (attemptFailed now h e err c)"
proof (cases "attempt e < or_default (retries (ex_task e)) 0")
  case True
  assume "running_inv c"
  then have "running_inv (c\<lparr>stats := x, executions := y\<rparr>)" for x y
    by (simp add: running_inv_def)
  with True show ?thesis
    by (simp add: attemptFailed_def Let_def)
next
  case False
  assume "running_inv c"
  with False show ?thesis
    by (simp add: attemptFailed_def Let_def fail_running_inv)
qed

section \<open>The concurrency ceiling\<close>

lemma step_maxConcurrency: "maxConcurrency (step c ev) = maxConcurrency c"
  by (cases ev)
     (simp_all add: addTask_def start_def pause_def resume_def stop_def cancelTask_def
        clearQueue_def taskSettled_def delayDone_def timerFired_def insertTaskByPriority_def
        Let_def processNextTask_frame succeed_frame fail_frame attemptFailed_frame
        split: option.splits outcome.splits)

lemma step_running_inv:
  assumes "running_inv c"
  shows "running_inv (step c ev)"
proof (cases ev)
  case (AddTask cfg now)
  let ?p = "promiseCount c"
  let ?c0 = "c\<lparr>promises := AList.update ?p Pending (promises c), promiseCount := ?p + 1\<rparr>"
  have inv0: "running_inv (c0\<lparr>promises := x\<rparr>)" if "running_inv c0" for c0 x
    using that by (simp add: running_inv_def)
  have c0: "running_inv ?c0"
    using assms by (simp add: running_inv_def)
  show ?thesis
  proof (cases "\<not> truthy_string (task_id cfg) \<or> task_fn cfg = None")
    case True
    then show ?thesis
      using inv0 [OF c0] by (simp add: AddTask addTask_def Let_def)
  next
    case valid: False
    show ?thesis
    proof (cases "length (taskQueue ?c0) \<ge> maxQueueSize ?c0")
      case True
      with valid show ?thesis
        using inv0 [OF c0] by (simp add: AddTask addTask_def Let_def)
    next
      case False
      let ?t = "task_config.extend cfg (queued_task.fields ?p now 0)"
      let ?c1 = "insertTaskByPriority ?t ?c0"
      let ?c2 = "?c1\<lparr>stats := (stats ?c1)\<lparr>totalTasks := totalTasks (stats ?c1) + 1\<rparr>\<rparr>"
      have c2: "running_inv ?c2"
        using assms by (simp add: running_inv_def insertTaskByPriority_def Let_def)
      have "snd (addTask cfg now c) =
              (if isRunning ?c2 \<and> \<not> isPaused ?c2 then processNextTask now ?c2 else ?c2)"
      proof -
        from valid obtain f where "task_fn cfg = Some f" and "truthy_string (task_id cfg)"
          by auto
        with False show ?thesis by (simp add: addTask_def Let_def)
      qed
      then show ?thesis
        using c2 processNextTask_running_inv [OF c2, of now]
        by (simp add: AddTask del: One_nat_def)
    qed
  qed
next
  case (Start now)
  have "running_inv (c\<lparr>isRunning := True, isPaused := False,
          stats := (stats c)\<lparr>startTime := Some now\<rparr>\<rparr>)"
    using assms by (simp add: running_inv_def)
  then show ?thesis
    using assms by (simp add: Start start_def processNextTask_running_inv)
next
  case Pause
  with assms show ?thesis by (simp add: pause_def running_inv_def)
next
  case (Resume now)
  have "running_inv (c\<lparr>isPaused := False\<rparr>)"
    using assms by (simp add: running_inv_def)
  then show ?thesis
    by (simp add: Resume resume_def processNextTask_running_inv)
next
  case (Stop now)
  with assms show ?thesis by (simp add: stop_def running_inv_def)
next
  case (CancelTask i)
  show ?thesis
  proof (cases "map_of (runningTasks c) i")
    case (Some h)
    have "running_inv (c\<lparr>executions := abort h (executions c),
            runningTasks := AList.delete i (runningTasks c)\<rparr>)"
      by (rule running_inv_delete [OF assms, of _ i]) simp_all
    with Some show ?thesis by (simp add: CancelTask cancelTask_def)
  next
    case None
    with assms show ?thesis
      by (simp add: CancelTask cancelTask_def running_inv_def split: option.splits)
  qed
next
  case ClearQueue
  with assms show ?thesis by (simp add: clearQueue_def running_inv_def)
next
  case (TaskSettled h out now)
  with assms show ?thesis
    by (simp add: taskSettled_def succeed_running_inv attemptFailed_running_inv
        split: option.splits outcome.splits)
next
  case (DelayDone h now)
  have "running_inv (c\<lparr>executions := x\<rparr>)" for x
    using assms by (simp add: running_inv_def)
  with DelayDone assms show ?thesis
    by (simp add: delayDone_def Let_def fail_running_inv attemptFailed_running_inv
        split: option.splits)
next
  case (TimerFired h)
  with assms show ?thesis
    by (simp add: timerFired_def running_inv_def split: option.splits)
qed

lemma run_snoc: "run c (evs @ [ev]) = step (run c evs) ev"
  by (simp add: run_def)

lemma run_running_inv: "running_inv c \<Longrightarrow> running_inv (run c evs)"
  by (induction evs rule: rev_induct) (simp_all add: run_def step_running_inv)

text \<open>
  C1. From a new controller, whatever the options, after any sequence of method calls
  and event-loop resumptions the running map has distinct keys, so that its size is
  the length of the list, and that size is at most \<open>maxConcurrency\<close>.
\<close>

theorem running_never_exceeds_maxConcurrency:
  "distinct (map fst (runningTasks (run (constructor opts) evs))) \<and>
   length (runningTasks (run (constructor opts) evs))
     \<le> maxConcurrency (run (constructor opts) evs)"
proof -
  have "running_inv (constructor opts)"
    by (simp add: running_inv_def constructor_def)
  then have "running_inv (run (constructor opts) evs)"
    by (rule run_running_inv)
  then show ?thesis
    by (simp add: running_inv_def)
qed

theorem running_never_exceeds_maxConcurrency_witness:
  "length (runningTasks (run (constructor (options_with (Some 1) None))
      [Start 0, AddTask (plain_task ''A'' None None) 1, AddTask (plain_task ''B'' None None) 2,
       CancelTask (Some ''A''), TaskSettled 0 (Fulfil ''r'') 3]))
     \<le> maxConcurrency (run (constructor (options_with (Some 1) None))
      [Start 0, AddTask (plain_task ''A'' None None) 1, AddTask (plain_task ''B'' None None) 2,
       CancelTask (Some ''A''), TaskSettled 0 (Fulfil ''r'') 3])"
  using running_never_exceeds_maxConcurrency
    [of "options_with (Some 1) None"
        "[Start 0, AddTask (plain_task ''A'' None None) 1, AddTask (plain_task ''B'' None None) 2,
          CancelTask (Some ''A''), TaskSettled 0 (Fulfil ''r'') 3]"]
  by blast

section \<open>Unfolding the definitions on given traces\<close>

lemmas controller_defs =
  run_def constructor_def options_with_def plain_task_def addTask_def start_def stop_def
  pause_def resume_def cancelTask_def clearQueue_def abort_def
  taskSettled_def delayDone_def timerFired_def attemptFailed_def succeed_def fail_def
  finish_def processNextTask_def executeTask_def insertTaskByPriority_def insertIndex_def
  priority_ge_def or_default_def truthy_string_def truthy_time_def time_or_def settle_def
  getStats_def
  Let_def task_config.extend_def queued_task.fields_def

section \<open>Priority insertion\<close>

text \<open>
  When no queued task has a priority at least that of the new task, the loop assigns
  nothing and the new task is appended.
\<close>

lemma scanBack_None:
  "n \<le> length q \<Longrightarrow> \<forall>x\<in>set q. \<not> priority_ge (priority x) p \<Longrightarrow> scanBack p q n = None"
  by (induction n) simp_all

lemma insertTaskByPriority_appends:
  assumes "\<forall>x\<in>set (taskQueue c).
             \<not> priority_ge (priority x) (case priority t of None \<Rightarrow> 0 | Some n \<Rightarrow> n)"
  shows "taskQueue (insertTaskByPriority t c) = taskQueue c @ [t]"
proof -
  have "scanBack (case priority t of None \<Rightarrow> 0 | Some n \<Rightarrow> n) (taskQueue c)
          (length (taskQueue c)) = None"
    using assms by (intro scanBack_None) simp_all
  then show ?thesis
    by (simp add: insertTaskByPriority_def insertIndex_def Let_def)
qed

text \<open>
  C2. The claim asks that a task be inserted after the queued tasks of priority at
  least its own and before those of lower priority, so that a task of priority 10
  overtakes a queued task of priority 0. In \<open>insertTaskByPriority\<close> the index starts
  at the length of the queue and is changed only when a queued task of priority at
  least the new one is found; when there is none, the new task goes to the end. Here
  the task of priority 10 is queued behind the task of priority 0, and with one slot
  the task of priority 0 is the one dispatched when the slot is released.
\<close>

theorem priority_insertion_behind_lower_priority:
  "map task_id (taskQueue (run (constructor (options_with None None))
      [AddTask (plain_task ''low'' (Some 0) None) 1,
       AddTask (plain_task ''high'' (Some 10) None) 2]))
     = [Some ''low'', Some ''high'']
   \<and> map fst (runningTasks (run (constructor (options_with (Some 1) None))
      [Start 0,
       AddTask (plain_task ''first'' None None) 1,
       AddTask (plain_task ''low'' (Some 0) None) 2,
       AddTask (plain_task ''high'' (Some 10) None) 3,
       TaskSettled 0 (Fulfil ''done'') 4]))
     = [Some ''low'']"
  by (simp add: controller_defs)

section \<open>Submission\<close>

lemma map_of_settle_new:
  "map_of (settle p s (AList.update p Pending ps)) p = Some s"
  by (simp add: settle_def map_of_map_entry update_conv')

text \<open>
  C7. A descriptor whose id is missing or empty, or whose task function is missing,
  is rejected inside \<open>addTask\<close> with the invalid-configuration error; a valid
  descriptor that arrives when the queue holds \<open>maxQueueSize\<close> tasks or more is
  rejected with the queue-full error. In both cases the promise returned is already
  rejected when \<open>addTask\<close> returns, and the queue and the statistics (with them
  \<open>totalTasks\<close>) are as before.
\<close>

theorem addTask_rejects_without_queueing:
  "(\<not> truthy_string (task_id cfg) \<or> task_fn cfg = None \<longrightarrow>
      map_of (promises (snd (addTask cfg now c))) (fst (addTask cfg now c))
        = Some (RejectedError InvalidTaskConfig)
      \<and> taskQueue (snd (addTask cfg now c)) = taskQueue c
      \<and> stats (snd (addTask cfg now c)) = stats c)
   \<and> (truthy_string (task_id cfg) \<and> task_fn cfg \<noteq> None
        \<and> maxQueueSize c \<le> length (taskQueue c) \<longrightarrow>
      map_of (promises (snd (addTask cfg now c))) (fst (addTask cfg now c))
        = Some (RejectedError (QueueFull (maxQueueSize c)))
      \<and> taskQueue (snd (addTask cfg now c)) = taskQueue c
      \<and> stats (snd (addTask cfg now c)) = stats c)"
  by (auto simp: addTask_def Let_def map_of_settle_new)

theorem addTask_rejects_without_queueing_witness:
  "map_of (promises (snd (addTask (plain_task [] None None) 1 (constructor (options_with None None)))))
      (fst (addTask (plain_task [] None None) 1 (constructor (options_with None None))))
     = Some (RejectedError InvalidTaskConfig)
   \<and> map_of (promises (snd (addTask (plain_task ''b'' None None) 2
               (snd (addTask (plain_task ''a'' None None) 1
                  (constructor (options_with None (Some 1))))))))
      (fst (addTask (plain_task ''b'' None None) 2
               (snd (addTask (plain_task ''a'' None None) 1
                  (constructor (options_with None (Some 1)))))))
     = Some (RejectedError (QueueFull 1))"
proof -
  let ?c = "constructor (options_with None None)"
  let ?bad = "plain_task [] None None"
  let ?d = "snd (addTask (plain_task ''a'' None None) 1 (constructor (options_with None (Some 1))))"
  let ?b = "plain_task ''b'' None None"
  have h1: "\<not> truthy_string (task_id ?bad) \<or> task_fn ?bad = None"
    by (simp add: plain_task_def truthy_string_def)
  have h2: "truthy_string (task_id ?b) \<and> task_fn ?b \<noteq> None
              \<and> maxQueueSize ?d \<le> length (taskQueue ?d)"
    by (simp add: controller_defs)
  have q: "maxQueueSize ?d = 1"
    by (simp add: controller_defs)
  show ?thesis
    using addTask_rejects_without_queueing [of ?bad 1 ?c] h1
      addTask_rejects_without_queueing [of ?b 2 ?d] h2 q
    by simp
qed

section \<open>Statistics\<close>

lemma addTask_frame:
  "isRunning (snd (addTask cfg now c)) = isRunning c"
  "isPaused (snd (addTask cfg now c)) = isPaused c"
  "startTime (stats (snd (addTask cfg now c))) = startTime (stats c)"
  "endTime (stats (snd (addTask cfg now c))) = endTime (stats c)"
  by (simp_all add: addTask_def insertTaskByPriority_def Let_def processNextTask_frame)

lemma cancelTask_frame:
  "isRunning (snd (cancelTask i c)) = isRunning c"
  "isPaused (snd (cancelTask i c)) = isPaused c"
  "stats (snd (cancelTask i c)) = stats c"
  by (simp_all add: cancelTask_def split: option.splits)

lemma taskSettled_frame:
  "isRunning (taskSettled h out now c) = isRunning c"
  "isPaused (taskSettled h out now c) = isPaused c"
  "startTime (stats (taskSettled h out now c)) = startTime (stats c)"
  "endTime (stats (taskSettled h out now c)) = endTime (stats c)"
  by (simp_all add: taskSettled_def succeed_frame attemptFailed_frame
        split: option.splits outcome.splits)

lemma delayDone_frame:
  "isRunning (delayDone h now c) = isRunning c"
  "isPaused (delayDone h now c) = isPaused c"
  "startTime (stats (delayDone h now c)) = startTime (stats c)"
  "endTime (stats (delayDone h now c)) = endTime (stats c)"
  by (simp_all add: delayDone_def Let_def fail_frame attemptFailed_frame split: option.splits)

lemma timerFired_frame:
  "isRunning (timerFired h c) = isRunning c"
  "isPaused (timerFired h c) = isPaused c"
  "stats (timerFired h c) = stats c"
  by (simp_all add: timerFired_def split: option.splits)

lemma step_startTime:
  "\<not> isStart ev \<or> isRunning c \<Longrightarrow> startTime (stats (step c ev)) = startTime (stats c)"
  by (cases ev)
     (auto simp: addTask_frame cancelTask_frame taskSettled_frame delayDone_frame
        timerFired_frame start_def pause_def resume_def stop_def clearQueue_def
        processNextTask_frame)

lemma step_endTime:
  "\<not> isStop ev \<Longrightarrow> endTime (stats (step c ev)) = endTime (stats c)"
  by (cases ev)
     (auto simp: addTask_frame cancelTask_frame taskSettled_frame delayDone_frame
        timerFired_frame start_def pause_def resume_def clearQueue_def
        processNextTask_frame)

lemma step_isRunning:
  "\<not> isStop ev \<Longrightarrow> isRunning c \<Longrightarrow> isRunning (step c ev)"
  by (cases ev)
     (auto simp: addTask_frame cancelTask_frame taskSettled_frame delayDone_frame
        timerFired_frame start_def pause_def resume_def clearQueue_def
        processNextTask_frame)

lemma run_never_started:
  "\<not> list_ex isStart evs \<Longrightarrow> startTime (stats (run c evs)) = startTime (stats c)"
  by (induction evs rule: rev_induct) (simp_all add: run_def step_startTime)

lemma run_after_start:
  "\<not> list_ex isStop evs \<Longrightarrow> isRunning c \<Longrightarrow>
   isRunning (run c evs) \<and> startTime (stats (run c evs)) = startTime (stats c)
   \<and> endTime (stats (run c evs)) = endTime (stats c)"
  by (induction evs rule: rev_induct)
     (simp_all add: run_def step_startTime step_endTime step_isRunning)

text \<open>
  C8. The claim gives \<open>successRate\<close> as the quotient of the two counters, \<open>0\<close> without
  submissions, and the duration as undefined for a controller that was never started.
  On a new controller \<open>getStats\<close> returns the number \<open>0\<close> as duration and the string
  \<open>'0%'\<close> as success rate.
\<close>

theorem getStats_new_controller:
  "snap_duration (getStats 7 (constructor (options_with None None))) = Num 0
   \<and> snap_duration (getStats 7 (constructor (options_with None None))) \<noteq> Undefined
   \<and> snap_successRate (getStats 7 (constructor (options_with None None))) = Str ''0%''
   \<and> snap_successRate (getStats 7 (constructor (options_with None None))) \<noteq> Num 0"
  by (simp add: controller_defs)

text \<open>
  C8, as the code has it. The success rate is a string: \<open>'0%'\<close> when nothing was
  submitted, otherwise the percentage \<open>stats.completedTasks / stats.totalTasks * 100\<close>
  with two decimals and a percent sign. The duration is always a number: \<open>0\<close> when
  \<open>startTime\<close> is not set (or is 0), otherwise \<open>endTime\<close> if it is set and not 0, else
  the current time, minus \<open>startTime\<close>. In particular it is \<open>0\<close> after any sequence
  of operations that never calls \<open>start\<close>.
\<close>

theorem getStats_successRate_duration:
  assumes "\<not> list_ex isStart evs"
  shows "snap_duration (getStats now (run (constructor opts) evs)) = Num 0
    \<and> snap_successRate (getStats now c) =
        (if totalTasks (stats c) = 0 then Str ''0%''
         else PercentText (stats_completedTasks (stats c)) (totalTasks (stats c)))
    \<and> snap_duration (getStats now c) =
        Num (case startTime (stats c) of
               None \<Rightarrow> 0
             | Some s \<Rightarrow>
                 if s = 0 then 0
                 else (case endTime (stats c) of
                         None \<Rightarrow> now - s
                       | Some e \<Rightarrow> if e = 0 then now - s else e - s))"
proof -
  have "startTime (stats (run (constructor opts) evs)) = startTime (stats (constructor opts))"
    using assms by (rule run_never_started)
  then have "startTime (stats (run (constructor opts) evs)) = None"
    by (simp add: constructor_def)
  then have "snap_duration (getStats now (run (constructor opts) evs)) = Num 0"
    by (simp add: getStats_def truthy_time_def time_or_def Let_def)
  moreover have "snap_successRate (getStats now c) =
        (if totalTasks (stats c) = 0 then Str ''0%''
         else PercentText (stats_completedTasks (stats c)) (totalTasks (stats c)))"
    by (simp add: getStats_def Let_def)
  moreover have "snap_duration (getStats now c) =
        Num (case startTime (stats c) of
               None \<Rightarrow> 0
             | Some s \<Rightarrow>
                 if s = 0 then 0
                 else (case endTime (stats c) of
                         None \<Rightarrow> now - s
                       | Some e \<Rightarrow> if e = 0 then now - s else e - s))"
    by (simp add: getStats_def truthy_time_def time_or_def Let_def split: option.splits)
  ultimately show ?thesis by simp
qed

theorem getStats_successRate_duration_witness:
  "\<not> list_ex isStart [AddTask (plain_task ''a'' None None) 1, Pause, Stop 5]
   \<and> snap_duration (getStats 9 (run (constructor (options_with None None))
        [AddTask (plain_task ''a'' None None) 1, Pause, Stop 5])) = Num 0"
proof -
  have h: "\<not> list_ex isStart [AddTask (plain_task ''a'' None None) 1, Pause, Stop 5]"
    by simp
  show ?thesis
    using h getStats_successRate_duration
      [OF h, where now = 9 and opts = "options_with None None"
         and c = "constructor (options_with None None)"]
    by simp
qed

text \<open>
  C10. \<open>stop\<close> at time \<open>t1\<close>, then \<open>start\<close> at a later time \<open>t2\<close>: \<open>start\<close> sets
  \<open>startTime\<close> and leaves \<open>endTime\<close>, and until the next \<open>stop\<close> no operation
  changes either, so that \<open>getStats\<close> reports \<open>t1 - t2\<close>, a negative number, whatever
  the current time is. Times are milliseconds since the epoch, hence positive.
\<close>

theorem restart_keeps_old_endTime:
  assumes "0 < t1" and "t1 < t2" and "\<not> list_ex isStop evs"
  shows "snap_duration (getStats now (run (start t2 (stop t1 c)) evs)) = Num (t1 - t2)
    \<and> t1 - t2 < 0"
proof -
  let ?c = "start t2 (stop t1 c)"
  have c: "isRunning ?c \<and> startTime (stats ?c) = Some t2 \<and> endTime (stats ?c) = Some t1"
    by (simp add: start_def stop_def processNextTask_frame)
  then have "isRunning (run ?c evs) \<and> startTime (stats (run ?c evs)) = Some t2
      \<and> endTime (stats (run ?c evs)) = Some t1"
    using run_after_start [OF assms(3), of ?c] by simp
  with assms(1,2) show ?thesis
    by (simp add: getStats_def truthy_time_def time_or_def Let_def)
qed

theorem restart_keeps_old_endTime_witness:
  "(0::int) < 100 \<and> (100::int) < 250
   \<and> \<not> list_ex isStop [AddTask (plain_task ''a'' None None) 260, Pause, Resume 270]
   \<and> snap_duration (getStats 300
        (run (start 250 (stop 100 (constructor (options_with None None))))
           [AddTask (plain_task ''a'' None None) 260, Pause, Resume 270])) = Num (- 150)"
proof -
  have h1: "(0::int) < 100" and h2: "(100::int) < 250" by simp_all
  have h3: "\<not> list_ex isStop [AddTask (plain_task ''a'' None None) 260, Pause, Resume 270]"
    by simp
  show ?thesis
    using h3 restart_keeps_old_endTime
      [OF h1 h2 h3, where now = 300 and c = "constructor (options_with None None)"]
    by simp
qed

section \<open>Completion, timeout and retry\<close>

lemma succeed_completed:
  "map_option success (map_of (completedTasks (succeed now h e d c)) (task_id (ex_task e)))
     = Some True"
  "stats_completedTasks (stats (succeed now h e d c)) = stats_completedTasks (stats c) + 1"
  by (simp_all add: succeed_def Let_def finish_frame update_conv')

lemma fail_completed:
  "map_option success (map_of (completedTasks (fail now h e err c)) (task_id (ex_task e)))
     = Some False"
  "map_option res_error (map_of (completedTasks (fail now h e err c)) (task_id (ex_task e)))
     = Some err"
  "stats_completedTasks (stats (fail now h e err c)) = stats_completedTasks (stats c)"
  by (simp_all add: fail_def Let_def finish_frame update_conv')

lemma succeed_results_distinct:
  "distinct (map fst (completedTasks c)) \<Longrightarrow>
   distinct (map fst (completedTasks (succeed now h e d c)))"
  by (simp add: succeed_def Let_def finish_frame distinct_update)

lemma fail_results_distinct:
  "distinct (map fst (completedTasks c)) \<Longrightarrow>
   distinct (map fst (completedTasks (fail now h e err c)))"
  by (simp add: fail_def Let_def finish_frame distinct_update)

lemma attemptFailed_results_distinct:
  "distinct (map fst (completedTasks c)) \<Longrightarrow>
   distinct (map fst (completedTasks (attemptFailed now h e err c)))"
  by (simp add: attemptFailed_def Let_def fail_results_distinct)

lemma step_results_distinct:
  assumes "distinct (map fst (completedTasks c))"
  shows "distinct (map fst (completedTasks (step c ev)))"
proof (cases ev)
  case (AddTask cfg now)
  with assms show ?thesis
    by (simp add: addTask_def insertTaskByPriority_def Let_def processNextTask_frame)
next
  case (Start now)
  with assms show ?thesis by (simp add: start_def processNextTask_frame)
next
  case Pause
  with assms show ?thesis by (simp add: pause_def)
next
  case (Resume now)
  with assms show ?thesis by (simp add: resume_def processNextTask_frame)
next
  case (Stop now)
  with assms show ?thesis by (simp add: stop_def)
next
  case (CancelTask i)
  with assms show ?thesis by (simp add: cancelTask_def split: option.splits)
next
  case ClearQueue
  with assms show ?thesis by (simp add: clearQueue_def)
next
  case (TaskSettled h out now)
  with assms show ?thesis
    by (simp add: taskSettled_def succeed_results_distinct attemptFailed_results_distinct
        split: option.splits outcome.splits)
next
  case (DelayDone h now)
  with assms show ?thesis
    by (simp add: delayDone_def Let_def fail_results_distinct attemptFailed_results_distinct
        split: option.splits)
next
  case (TimerFired h)
  with assms show ?thesis by (simp add: timerFired_def split: option.splits)
qed

lemma run_results_distinct:
  "distinct (map fst (completedTasks (run (constructor opts) evs)))"
proof (induction evs rule: rev_induct)
  case Nil
  show ?case by (simp add: run_def constructor_def)
next
  case (snoc ev evs)
  then show ?case by (simp add: run_snoc step_results_distinct)
qed

text \<open>
  C9. The field \<open>completedTasks\<close> of the snapshot is the size of the map of results
  (the length of the list, whose keys are distinct in every state a new controller
  can reach).
  A task whose function fulfils gets an entry there with \<open>success = true\<close>; a task whose
  function rejects on its last attempt gets an entry with \<open>success = false\<close>, and the
  counter \<open>stats.completedTasks\<close>, from which the success rate is computed, stays as it
  was. After one task has failed with no retry left, the snapshot says 1 while that
  counter is 0.
\<close>

theorem completed_count_is_size_of_results:
  assumes "map_of (executions c) h = Some e"
    and "phase e = AwaitTask"
    and "\<not> attempt e < or_default (retries (ex_task e)) 0"
  shows "snap_completedTasks (getStats now' c') = length (completedTasks c')
    \<and> distinct (map fst (completedTasks (run (constructor opts) evs)))
    \<and> map_option success
        (map_of (completedTasks (taskSettled h (Fulfil d) now c)) (task_id (ex_task e)))
          = Some True
    \<and> map_option success
        (map_of (completedTasks (taskSettled h (Reject x) now c)) (task_id (ex_task e)))
          = Some False
    \<and> stats_completedTasks (stats (taskSettled h (Reject x) now c))
          = stats_completedTasks (stats c)
    \<and> snap_completedTasks (getStats 9 (run (constructor (options_with None None))
          [Start 0, AddTask (plain_task ''t'' None (Some 1)) 1, TaskSettled 0 (Reject ''e'') 2,
           DelayDone 0 3, TaskSettled 0 (Reject ''e'') 4]))
          = 1
    \<and> stats_completedTasks (stats (run (constructor (options_with None None))
          [Start 0, AddTask (plain_task ''t'' None (Some 1)) 1, TaskSettled 0 (Reject ''e'') 2,
           DelayDone 0 3, TaskSettled 0 (Reject ''e'') 4]))
          = 0"
proof -
  have "snap_completedTasks (getStats now' c') = length (completedTasks c')"
    by (simp add: getStats_def Let_def)
  moreover have "map_option success
        (map_of (completedTasks (taskSettled h (Fulfil d) now c)) (task_id (ex_task e)))
          = Some True"
    using assms(1,2) succeed_completed(1) [of now h "e\<lparr>timerPending := False\<rparr>" d c]
    by (simp add: taskSettled_def)
  moreover have "taskSettled h (Reject x) now c = fail now h e (Some (TaskError x)) c"
    using assms by (simp add: taskSettled_def attemptFailed_def Let_def)
  moreover have "snap_completedTasks (getStats 9 (run (constructor (options_with None None))
          [Start 0, AddTask (plain_task ''t'' None (Some 1)) 1, TaskSettled 0 (Reject ''e'') 2,
           DelayDone 0 3, TaskSettled 0 (Reject ''e'') 4]))
          = 1"
    by (simp add: controller_defs)
  moreover have "stats_completedTasks (stats (run (constructor (options_with None None))
          [Start 0, AddTask (plain_task ''t'' None (Some 1)) 1, TaskSettled 0 (Reject ''e'') 2,
           DelayDone 0 3, TaskSettled 0 (Reject ''e'') 4]))
          = 0"
    by (simp add: controller_defs)
  ultimately show ?thesis
    by (simp add: fail_completed run_results_distinct)
qed

theorem completed_count_is_size_of_results_witness:
  "map_of (executions (run (constructor (options_with None None))
      [Start 0, AddTask (plain_task ''t'' None None) 1])) 0
     = Some (snd (hd (executions (run (constructor (options_with None None))
         [Start 0, AddTask (plain_task ''t'' None None) 1]))))
   \<and> map_option success
        (map_of (completedTasks (taskSettled 0 (Reject ''e'') 2
           (run (constructor (options_with None None))
              [Start 0, AddTask (plain_task ''t'' None None) 1])))
        (task_id (ex_task (snd (hd (executions (run (constructor (options_with None None))
           [Start 0, AddTask (plain_task ''t'' None None) 1])))))))
      = Some False"
proof -
  let ?c = "run (constructor (options_with None None))
      [Start 0, AddTask (plain_task ''t'' None None) 1]"
  let ?e = "snd (hd (executions ?c))"
  have h1: "map_of (executions ?c) 0 = Some ?e"
    by (simp add: controller_defs)
  have h2: "phase ?e = AwaitTask"
    by (simp add: controller_defs)
  have h3: "\<not> attempt ?e < or_default (retries (ex_task ?e)) 0"
    by (simp add: controller_defs)
  show ?thesis
    using h1 completed_count_is_size_of_results [OF h1 h2 h3, where x = "''e''" and now = 2]
    by blast
qed

text \<open>
  C4. The claim has the attempt fail with a timeout error, and the controller go on
  to retry or failure handling, as soon as the timer fires. Here the timer fires while
  the task function is pending: the task stays in the running map with its execution
  still waiting for the function, nothing is recorded and the promise stays pending;
  when the function fulfils afterwards, the task completes as a success.
\<close>

theorem timer_does_not_end_the_attempt:
  "map (phase \<circ> snd) (executions (run (constructor (options_with None None))
      [Start 0, AddTask (plain_task ''t'' None None) 1, TimerFired 0])) = [AwaitTask]
   \<and> map (aborted \<circ> snd) (executions (run (constructor (options_with None None))
      [Start 0, AddTask (plain_task ''t'' None None) 1, TimerFired 0])) = [True]
   \<and> map fst (runningTasks (run (constructor (options_with None None))
      [Start 0, AddTask (plain_task ''t'' None None) 1, TimerFired 0])) = [Some ''t'']
   \<and> completedTasks (run (constructor (options_with None None))
      [Start 0, AddTask (plain_task ''t'' None None) 1, TimerFired 0]) = []
   \<and> map snd (promises (run (constructor (options_with None None))
      [Start 0, AddTask (plain_task ''t'' None None) 1, TimerFired 0])) = [Pending]
   \<and> map (success \<circ> snd) (completedTasks (run (constructor (options_with None None))
      [Start 0, AddTask (plain_task ''t'' None None) 1, TimerFired 0,
       TaskSettled 0 (Fulfil ''late'') 40000])) = [True]
   \<and> failedTasks (stats (run (constructor (options_with None None))
      [Start 0, AddTask (plain_task ''t'' None None) 1, TimerFired 0,
       TaskSettled 0 (Fulfil ''late'') 40000])) = 0"
  by (simp add: controller_defs)

text \<open>
  C4, as the code has it. The timer only marks the signal of the execution as
  aborted. Queue, running map, results, statistics and promises are as before, the
  execution is still there in the same phase and at the same attempt, so the controller
  goes on waiting for the task function; and if the function then fulfils, the task
  is recorded as a success.
\<close>

theorem timerFired_only_marks_signal:
  assumes "map_of (executions c) h = Some e" and "phase e = AwaitTask"
  shows "taskQueue (timerFired h c) = taskQueue c
    \<and> runningTasks (timerFired h c) = runningTasks c
    \<and> completedTasks (timerFired h c) = completedTasks c
    \<and> stats (timerFired h c) = stats c
    \<and> promises (timerFired h c) = promises c
    \<and> map_of (executions (timerFired h c)) h
         = Some (if timerPending e then e\<lparr>aborted := True, timerPending := False\<rparr> else e)
    \<and> map_option phase (map_of (executions (timerFired h c)) h) = Some AwaitTask
    \<and> map_option success
        (map_of (completedTasks (taskSettled h (Fulfil d) now (timerFired h c)))
           (task_id (ex_task e))) = Some True"
proof -
  let ?e = "if timerPending e then e\<lparr>aborted := True, timerPending := False\<rparr> else e"
  have ex: "map_of (executions (timerFired h c)) h = Some ?e"
    using assms(1) by (simp add: timerFired_def update_conv')
  have ph: "phase ?e = AwaitTask" and t: "ex_task ?e = ex_task e"
    using assms(2) by simp_all
  have "map_option success
        (map_of (completedTasks (taskSettled h (Fulfil d) now (timerFired h c)))
           (task_id (ex_task e))) = Some True"
    using succeed_completed(1) [of now h "?e\<lparr>timerPending := False\<rparr>" d "timerFired h c"] ex ph t
    by (simp add: taskSettled_def)
  moreover have "taskQueue (timerFired h c) = taskQueue c
    \<and> runningTasks (timerFired h c) = runningTasks c
    \<and> completedTasks (timerFired h c) = completedTasks c
    \<and> stats (timerFired h c) = stats c
    \<and> promises (timerFired h c) = promises c"
    using assms(1) by (simp add: timerFired_def)
  ultimately show ?thesis
    using ex ph by simp
qed

theorem timerFired_only_marks_signal_witness:
  "map_of (executions (run (constructor (options_with None None))
      [Start 0, AddTask (plain_task ''t'' None None) 1])) 0
     = Some (snd (hd (executions (run (constructor (options_with None None))
         [Start 0, AddTask (plain_task ''t'' None None) 1]))))
   \<and> phase (snd (hd (executions (run (constructor (options_with None None))
         [Start 0, AddTask (plain_task ''t'' None None) 1])))) = AwaitTask
   \<and> runningTasks (timerFired 0 (run (constructor (options_with None None))
         [Start 0, AddTask (plain_task ''t'' None None) 1]))
       = runningTasks (run (constructor (options_with None None))
         [Start 0, AddTask (plain_task ''t'' None None) 1])
   \<and> map_option phase (map_of (executions (timerFired 0
         (run (constructor (options_with None None))
            [Start 0, AddTask (plain_task ''t'' None None) 1]))) 0) = Some AwaitTask"
proof -
  let ?c = "run (constructor (options_with None None))
      [Start 0, AddTask (plain_task ''t'' None None) 1]"
  let ?e = "snd (hd (executions ?c))"
  have h1: "map_of (executions ?c) 0 = Some ?e"
    by (simp add: controller_defs)
  have h2: "phase ?e = AwaitTask"
    by (simp add: controller_defs)
  show ?thesis
    using h1 h2 timerFired_only_marks_signal [OF h1 h2]
    by blast
qed

text \<open>
  C5. The claim gives every attempt its own signal and its own timer. Here a task with
  \<open>retries = 2\<close> is running; the timer fires during the first attempt, the task
  function rejects, and the retry delay ends. The second attempt finds the signal
  already aborted, does not call the task function (one call so far) and fails with
  the aborted error; no timer is pending for it.
\<close>

theorem second_attempt_sees_first_signal:
  "map (attempt \<circ> snd) (executions (run (constructor (options_with None None))
      [Start 0, AddTask (plain_task ''t'' None (Some 2)) 1, TimerFired 0,
       TaskSettled 0 (Reject ''e'') 2, DelayDone 0 3])) = [1]
   \<and> map (aborted \<circ> snd) (executions (run (constructor (options_with None None))
      [Start 0, AddTask (plain_task ''t'' None (Some 2)) 1, TimerFired 0,
       TaskSettled 0 (Reject ''e'') 2, DelayDone 0 3])) = [True]
   \<and> map (timerPending \<circ> snd) (executions (run (constructor (options_with None None))
      [Start 0, AddTask (plain_task ''t'' None (Some 2)) 1, TimerFired 0,
       TaskSettled 0 (Reject ''e'') 2, DelayDone 0 3])) = [False]
   \<and> map (invocations \<circ> snd) (executions (run (constructor (options_with None None))
      [Start 0, AddTask (plain_task ''t'' None (Some 2)) 1, TimerFired 0,
       TaskSettled 0 (Reject ''e'') 2, DelayDone 0 3])) = [1]
   \<and> map (lastError \<circ> snd) (executions (run (constructor (options_with None None))
      [Start 0, AddTask (plain_task ''t'' None (Some 2)) 1, TimerFired 0,
       TaskSettled 0 (Reject ''e'') 2, DelayDone 0 3])) = [Some TaskAborted]"
  by (simp add: controller_defs)

text \<open>
  C5, as the code has it. \<open>executeTask\<close> creates one signal, not aborted, and one
  pending timer when the task is dispatched, before the retry loop. A retry creates
  neither: when the retry delay ends and the loop goes on, the next attempt runs with
  the signal and the timer as the earlier attempts left them. With the signal not
  aborted the task function is called again; with the signal aborted the attempt fails
  with the aborted error without calling it, and then either waits for the next retry
  or, on the last attempt, the task is recorded as failed with that error.
\<close>

theorem retry_reuses_signal_and_timer:
  assumes "map_of (executions c) h = Some e"
    and "phase e = AwaitDelay"
    and "attempt e + 1 \<le> or_default (retries (ex_task e)) 0"
  shows "map_option aborted (map_of (executions (executeTask now' t c')) (promise t)) = Some False
    \<and> map_option timerPending (map_of (executions (executeTask now' t c')) (promise t)) = Some True
    \<and> (\<not> aborted e \<longrightarrow>
          map_of (executions (delayDone h now c)) h
            = Some (e\<lparr>attempt := attempt e + 1, phase := AwaitTask,
                       invocations := invocations e + 1\<rparr>))
    \<and> (aborted e \<and> attempt e + 1 < or_default (retries (ex_task e)) 0 \<longrightarrow>
          map_of (executions (delayDone h now c)) h
            = Some (e\<lparr>attempt := attempt e + 1, lastError := Some TaskAborted,
                       phase := AwaitDelay,
                       delayMs := or_default (task_retryDelay (ex_task e)) (retryDelay c)\<rparr>))
    \<and> (aborted e \<and> attempt e + 1 = or_default (retries (ex_task e)) 0 \<longrightarrow>
          map_option res_error
            (map_of (completedTasks (delayDone h now c)) (task_id (ex_task e)))
            = Some (Some TaskAborted))"
proof -
  let ?e1 = "e\<lparr>attempt := attempt e + 1\<rparr>"
  have "map_option aborted (map_of (executions (executeTask now' t c')) (promise t)) = Some False
    \<and> map_option timerPending (map_of (executions (executeTask now' t c')) (promise t)) = Some True"
    by (simp add: executeTask_def Let_def update_conv')
  moreover have "map_of (executions (delayDone h now c)) h
            = Some (e\<lparr>attempt := attempt e + 1, phase := AwaitTask,
                       invocations := invocations e + 1\<rparr>)"
    if "\<not> aborted e"
    using assms that by (simp add: delayDone_def Let_def update_conv')
  moreover have "map_of (executions (delayDone h now c)) h
            = Some (e\<lparr>attempt := attempt e + 1, lastError := Some TaskAborted,
                       phase := AwaitDelay,
                       delayMs := or_default (task_retryDelay (ex_task e)) (retryDelay c)\<rparr>)"
    if "aborted e" and "attempt e + 1 < or_default (retries (ex_task e)) 0"
    using assms that by (simp add: delayDone_def attemptFailed_def Let_def update_conv')
  moreover have "map_option res_error
            (map_of (completedTasks (delayDone h now c)) (task_id (ex_task e)))
            = Some (Some TaskAborted)"
    if "aborted e" and "attempt e + 1 = or_default (retries (ex_task e)) 0"
  proof -
    have "delayDone h now c = fail now h ?e1 (Some TaskAborted) c"
      using assms that by (simp add: delayDone_def attemptFailed_def Let_def)
    then show ?thesis
      using fail_completed(2) [of now h ?e1 "Some TaskAborted" c] by simp
  qed
  ultimately show ?thesis by blast
qed

theorem retry_reuses_signal_and_timer_witness:
  "map_of (executions (waiting_for_retry 1 False)) 0
     = Some (first_execution (waiting_for_retry 1 False))
   \<and> map_of (executions (delayDone 0 3 (waiting_for_retry 1 False))) 0
     = Some ((first_execution (waiting_for_retry 1 False))
          \<lparr>attempt := attempt (first_execution (waiting_for_retry 1 False)) + 1,
           phase := AwaitTask,
           invocations := invocations (first_execution (waiting_for_retry 1 False)) + 1\<rparr>)
   \<and> map_of (executions (delayDone 0 3 (waiting_for_retry 2 True))) 0
     = Some ((first_execution (waiting_for_retry 2 True))
          \<lparr>attempt := attempt (first_execution (waiting_for_retry 2 True)) + 1,
           lastError := Some TaskAborted, phase := AwaitDelay,
           delayMs := or_default (task_retryDelay (ex_task (first_execution (waiting_for_retry 2 True))))
                        (retryDelay (waiting_for_retry 2 True))\<rparr>)
   \<and> map_option res_error
        (map_of (completedTasks (delayDone 0 3 (waiting_for_retry 1 True)))
          (task_id (ex_task (first_execution (waiting_for_retry 1 True)))))
      = Some (Some TaskAborted)"
proof -
  let ?a = "waiting_for_retry 1 False"
  let ?b = "waiting_for_retry 2 True"
  let ?c = "waiting_for_retry 1 True"
  have a1: "map_of (executions ?a) 0 = Some (first_execution ?a)"
    and a2: "phase (first_execution ?a) = AwaitDelay"
    and a3: "attempt (first_execution ?a) + 1 \<le> or_default (retries (ex_task (first_execution ?a))) 0"
    and a4: "\<not> aborted (first_execution ?a)"
    by (simp_all add: waiting_for_retry_def first_execution_def controller_defs)
  have b1: "map_of (executions ?b) 0 = Some (first_execution ?b)"
    and b2: "phase (first_execution ?b) = AwaitDelay"
    and b3: "attempt (first_execution ?b) + 1 \<le> or_default (retries (ex_task (first_execution ?b))) 0"
    and b4: "aborted (first_execution ?b)
       \<and> attempt (first_execution ?b) + 1 < or_default (retries (ex_task (first_execution ?b))) 0"
    by (simp_all add: waiting_for_retry_def first_execution_def controller_defs)
  have c1: "map_of (executions ?c) 0 = Some (first_execution ?c)"
    and c2: "phase (first_execution ?c) = AwaitDelay"
    and c3: "attempt (first_execution ?c) + 1 \<le> or_default (retries (ex_task (first_execution ?c))) 0"
    and c4: "aborted (first_execution ?c)
       \<and> attempt (first_execution ?c) + 1 = or_default (retries (ex_task (first_execution ?c))) 0"
    by (simp_all add: waiting_for_retry_def first_execution_def controller_defs)
  show ?thesis
    using a1 a4 b4 c4
      retry_reuses_signal_and_timer [OF a1 a2 a3, where now = 3]
      retry_reuses_signal_and_timer [OF b1 b2 b3, where now = 3]
      retry_reuses_signal_and_timer [OF c1 c2 c3, where now = 3]
    by blast
qed

section \<open>Cancellation\<close>

lemma findIndex_Some:
  "findIndex i q = Some k \<Longrightarrow>
   k < length q \<and> task_id (q ! k) = i \<and> (\<forall>j<k. task_id (q ! j) \<noteq> i)"
proof (induction q arbitrary: k)
  case Nil
  then show ?case by simp
next
  case (Cons t q)
  show ?case
  proof (cases "task_id t = i")
    case True
    with Cons.prems show ?thesis by simp
  next
    case False
    with Cons.prems obtain k' where k': "findIndex i q = Some k'" and k: "k = Suc k'"
      by auto
    from Cons.IH [OF k'] have "k' < length q \<and> task_id (q ! k') = i
        \<and> (\<forall>j<k'. task_id (q ! j) \<noteq> i)" .
    with False k show ?thesis
      by (auto simp: less_Suc_eq_0_disj)
  qed
qed

lemma findIndex_None: "findIndex i q = None \<longleftrightarrow> i \<notin> task_id ` set q"
  by (induction q) auto

lemma map_of_settle:
  "map_of (settle p s ps) p' =
     (if p' = p \<and> map_of ps p = Some Pending then Some s else map_of ps p')"
  by (auto simp: settle_def map_of_map_entry split: option.splits)

lemma map_of_abort:
  "map_of es h = Some e \<Longrightarrow> map_of (abort h es) h = Some (e\<lparr>aborted := True\<rparr>)"
  by (simp add: abort_def map_of_map_entry)

text \<open>
  C6. The claim has \<open>cancel\<close> of a running task reject the task's future and invoke the
  scheduler. Here \<open>A\<close> is running and \<open>B\<close> is queued, with one slot. Cancelling \<open>A\<close>
  returns \<open>true\<close> and empties the running map, but both promises are still pending and
  \<open>B\<close> is still in the queue with nothing running.
\<close>

theorem cancel_running_settles_and_schedules_nothing:
  "fst (cancelTask (Some ''A'') one_running_one_queued)
   \<and> runningTasks (snd (cancelTask (Some ''A'') one_running_one_queued)) = []
   \<and> map snd (promises (snd (cancelTask (Some ''A'') one_running_one_queued)))
        = [Pending, Pending]
   \<and> map task_id (taskQueue (snd (cancelTask (Some ''A'') one_running_one_queued)))
        = [Some ''B'']
   \<and> map (aborted \<circ> snd) (executions (snd (cancelTask (Some ''A'') one_running_one_queued)))
        = [True]"
  by (simp add: one_running_one_queued_def controller_defs)

text \<open>
  C6, as the code has it. If the id is in the running map, \<open>cancelTask\<close> marks the
  signal of that task as aborted, removes the id from the running map and returns
  \<open>true\<close>; the promises, the queue and the recorded results are as before, so that
  \<open>cancelTask\<close> itself settles no future and dispatches nothing. Otherwise, if a
  queued task has the id, the first such task is taken out of the queue, its promise,
  if pending, is rejected with the cancelled error and no other promise changes, and
  \<open>cancelTask\<close> returns \<open>true\<close>; the running map and the executions are as before.
  Otherwise it returns \<open>false\<close> and changes nothing.
\<close>

theorem cancelTask_cases:
  "(map_of (runningTasks c) i = Some h \<longrightarrow>
      fst (cancelTask i c)
      \<and> map_of (runningTasks (snd (cancelTask i c))) i = None
      \<and> (\<forall>e. map_of (executions c) h = Some e \<longrightarrow>
            map_of (executions (snd (cancelTask i c))) h = Some (e\<lparr>aborted := True\<rparr>))
      \<and> promises (snd (cancelTask i c)) = promises c
      \<and> taskQueue (snd (cancelTask i c)) = taskQueue c
      \<and> completedTasks (snd (cancelTask i c)) = completedTasks c)
   \<and> (map_of (runningTasks c) i = None \<and> i \<in> task_id ` set (taskQueue c) \<longrightarrow>
      fst (cancelTask i c)
      \<and> (\<exists>k<length (taskQueue c).
            task_id (taskQueue c ! k) = i
            \<and> (\<forall>j<k. task_id (taskQueue c ! j) \<noteq> i)
            \<and> taskQueue (snd (cancelTask i c))
                 = take k (taskQueue c) @ drop (Suc k) (taskQueue c)
            \<and> (\<forall>p. map_of (promises (snd (cancelTask i c))) p =
                  (if p = promise (taskQueue c ! k) \<and> map_of (promises c) p = Some Pending
                   then Some (RejectedError TaskCancelled) else map_of (promises c) p)))
      \<and> runningTasks (snd (cancelTask i c)) = runningTasks c
      \<and> executions (snd (cancelTask i c)) = executions c)
   \<and> (map_of (runningTasks c) i = None \<and> i \<notin> task_id ` set (taskQueue c) \<longrightarrow>
      cancelTask i c = (False, c))"
proof (intro conjI impI)
  assume r: "map_of (runningTasks c) i = Some h"
  then have eq: "cancelTask i c =
      (True, c\<lparr>executions := abort h (executions c),
               runningTasks := AList.delete i (runningTasks c)\<rparr>)"
    by (simp add: cancelTask_def)
  show "fst (cancelTask i c)" by (simp add: eq)
  show "map_of (runningTasks (snd (cancelTask i c))) i = None"
    by (simp add: eq delete_conv')
  show "\<forall>e. map_of (executions c) h = Some e \<longrightarrow>
            map_of (executions (snd (cancelTask i c))) h = Some (e\<lparr>aborted := True\<rparr>)"
    by (simp add: eq map_of_abort)
  show "promises (snd (cancelTask i c)) = promises c" by (simp add: eq)
  show "taskQueue (snd (cancelTask i c)) = taskQueue c" by (simp add: eq)
  show "completedTasks (snd (cancelTask i c)) = completedTasks c" by (simp add: eq)
next
  assume q: "map_of (runningTasks c) i = None \<and> i \<in> task_id ` set (taskQueue c)"
  then obtain k where k: "findIndex i (taskQueue c) = Some k"
    using findIndex_None [of i "taskQueue c"] by (cases "findIndex i (taskQueue c)") auto
  from q k have eq: "cancelTask i c =
      (True, c\<lparr>taskQueue := take k (taskQueue c) @ drop (Suc k) (taskQueue c),
               promises := settle (promise (taskQueue c ! k)) (RejectedError TaskCancelled)
                             (promises c)\<rparr>)"
    by (simp add: cancelTask_def)
  show "fst (cancelTask i c)" by (simp add: eq)
  show "runningTasks (snd (cancelTask i c)) = runningTasks c" by (simp add: eq)
  show "executions (snd (cancelTask i c)) = executions c" by (simp add: eq)
  from findIndex_Some [OF k]
  have "k < length (taskQueue c)" "task_id (taskQueue c ! k) = i"
    "\<forall>j<k. task_id (taskQueue c ! j) \<noteq> i"
    by simp_all
  then show "\<exists>k<length (taskQueue c).
            task_id (taskQueue c ! k) = i
            \<and> (\<forall>j<k. task_id (taskQueue c ! j) \<noteq> i)
            \<and> taskQueue (snd (cancelTask i c))
                 = take k (taskQueue c) @ drop (Suc k) (taskQueue c)
            \<and> (\<forall>p. map_of (promises (snd (cancelTask i c))) p =
                  (if p = promise (taskQueue c ! k) \<and> map_of (promises c) p = Some Pending
                   then Some (RejectedError TaskCancelled) else map_of (promises c) p))"
    by (intro exI [of _ k]) (simp add: eq map_of_settle)
next
  assume n: "map_of (runningTasks c) i = None \<and> i \<notin> task_id ` set (taskQueue c)"
  then have "findIndex i (taskQueue c) = None"
    by (simp add: findIndex_None)
  with n show "cancelTask i c = (False, c)"
    by (simp add: cancelTask_def)
qed

theorem cancelTask_cases_witness:
  "map_of (runningTasks one_running_one_queued) (Some ''A'') = Some 0
   \<and> fst (cancelTask (Some ''A'') one_running_one_queued)
   \<and> promises (snd (cancelTask (Some ''A'') one_running_one_queued))
       = promises one_running_one_queued
   \<and> taskQueue (snd (cancelTask (Some ''A'') one_running_one_queued))
       = taskQueue one_running_one_queued
   \<and> map_of (runningTasks one_running_one_queued) (Some ''B'') = None
   \<and> Some ''B'' \<in> task_id ` set (taskQueue one_running_one_queued)
   \<and> fst (cancelTask (Some ''B'') one_running_one_queued)
   \<and> runningTasks (snd (cancelTask (Some ''B'') one_running_one_queued))
       = runningTasks one_running_one_queued
   \<and> Some ''Z'' \<notin> task_id ` set (taskQueue one_running_one_queued)
   \<and> cancelTask (Some ''Z'') one_running_one_queued = (False, one_running_one_queued)"
proof -
  let ?c = "one_running_one_queued"
  have a: "map_of (runningTasks ?c) (Some ''A'') = Some 0"
    by (simp add: one_running_one_queued_def controller_defs)
  have b: "map_of (runningTasks ?c) (Some ''B'') = None
      \<and> Some ''B'' \<in> task_id ` set (taskQueue ?c)"
    by (simp add: one_running_one_queued_def controller_defs)
  have z: "map_of (runningTasks ?c) (Some ''Z'') = None
      \<and> Some ''Z'' \<notin> task_id ` set (taskQueue ?c)"
    by (simp add: one_running_one_queued_def controller_defs)
  show ?thesis
    using a b z
      cancelTask_cases [of ?c "Some ''A''" 0]
      cancelTask_cases [of ?c "Some ''B''" 0]
      cancelTask_cases [of ?c "Some ''Z''" 0]
    by blast
qed

section \<open>The attempt counter\<close>

lemma list_all_update:
  "list_all P (map snd al) \<Longrightarrow> P v \<Longrightarrow> list_all P (map snd (AList.update k v al))"
  by (induction al) auto

lemma list_all_delete:
  "list_all P (map snd al) \<Longrightarrow> list_all P (map snd (AList.delete k al))"
  by (induction al) auto

lemma list_all_map_entry:
  "list_all P (map snd al) \<Longrightarrow> (\<And>v. P v \<Longrightarrow> P (f v)) \<Longrightarrow>
   list_all P (map snd (AList.map_entry k f al))"
  by (induction al) auto

lemma list_all_abort:
  "list_all (\<lambda>e. attempts (ex_task e) = Suc 0) (map snd es) \<Longrightarrow>
   list_all (\<lambda>e. attempts (ex_task e) = Suc 0) (map snd (abort h es))"
  unfolding abort_def by (rule list_all_map_entry) simp_all

lemma list_all_fold_abort:
  "list_all (\<lambda>e. attempts (ex_task e) = Suc 0) (map snd es) \<Longrightarrow>
   list_all (\<lambda>e. attempts (ex_task e) = Suc 0) (map snd (fold (\<lambda>(k, h). abort h) rs es))"
  by (induction rs arbitrary: es) (auto simp: list_all_abort)

lemma list_all_take_drop:
  "list_all P q \<Longrightarrow> list_all P (take k q) \<and> list_all P (drop k q)"
  by (metis append_take_drop_id list_all_append)

lemma map_of_list_all:
  "map_of al k = Some v \<Longrightarrow> list_all P (map snd al) \<Longrightarrow> P v"
  by (induction al) (auto split: if_splits)

lemma executeTask_attempts_inv:
  assumes "attempts_inv c" and "attempts t = 0"
  shows "attempts_inv (executeTask now t c)"
  using assms by (simp add: attempts_inv_def executeTask_def Let_def list_all_update)

lemma processNextTask_attempts_inv:
  assumes "attempts_inv c"
  shows "attempts_inv (processNextTask now c)"
proof (cases "taskQueue c")
  case Nil
  with assms show ?thesis by (simp add: processNextTask_def)
next
  case (Cons t q)
  with assms have "attempts_inv (c\<lparr>taskQueue := q\<rparr>)" and "attempts t = 0"
    by (simp_all add: attempts_inv_def)
  then have "attempts_inv (executeTask now t (c\<lparr>taskQueue := q\<rparr>))"
    by (rule executeTask_attempts_inv)
  with Cons assms show ?thesis by (simp add: processNextTask_def)
qed

lemma finish_attempts_inv:
  assumes "attempts_inv c"
  shows "attempts_inv (finish now h t c)"
  unfolding finish_def
  by (rule processNextTask_attempts_inv)
     (use assms in \<open>simp add: attempts_inv_def list_all_delete\<close>)

lemma succeed_attempts_inv:
  assumes "attempts_inv c" and "attempts (ex_task e) = Suc 0"
  shows "attempts_inv (succeed now h e d c)"
  unfolding succeed_def Let_def
  by (rule finish_attempts_inv)
     (use assms in \<open>simp add: attempts_inv_def list_all_update\<close>)

lemma fail_attempts_inv:
  assumes "attempts_inv c" and "attempts (ex_task e) = Suc 0"
  shows "attempts_inv (fail now h e err c)"
  unfolding fail_def Let_def
  by (rule finish_attempts_inv)
     (use assms in \<open>simp add: attempts_inv_def list_all_update\<close>)

lemma attemptFailed_attempts_inv:
  assumes "attempts_inv c" and "attempts (ex_task e) = Suc 0"
  shows "attempts_inv (attemptFailed now h e err c)"
proof (cases "attempt e < or_default (retries (ex_task e)) 0")
  case True
  with assms show ?thesis
    by (simp add: attemptFailed_def Let_def attempts_inv_def list_all_update)
next
  case False
  with assms show ?thesis
    by (simp add: attemptFailed_def Let_def fail_attempts_inv)
qed

lemma insertTaskByPriority_attempts_inv:
  assumes "attempts_inv c" and "attempts t = 0"
  shows "attempts_inv (insertTaskByPriority t c)"
proof -
  have "list_all (\<lambda>t. attempts t = 0) (taskQueue c)"
    using assms(1) by (simp add: attempts_inv_def)
  then have "list_all (\<lambda>t. attempts t = 0) (take k (taskQueue c))
      \<and> list_all (\<lambda>t. attempts t = 0) (drop k (taskQueue c))" for k
    by (rule list_all_take_drop)
  with assms show ?thesis
    by (simp add: insertTaskByPriority_def Let_def attempts_inv_def)
qed

lemma addTask_attempts_inv:
  assumes "attempts_inv c"
  shows "attempts_inv (snd (addTask cfg now c))"
proof -
  let ?p = "promiseCount c"
  let ?c0 = "c\<lparr>promises := AList.update ?p Pending (promises c), promiseCount := ?p + 1\<rparr>"
  let ?t = "task_config.extend cfg (queued_task.fields ?p now 0)"
  let ?c1 = "insertTaskByPriority ?t ?c0"
  let ?c2 = "?c1\<lparr>stats := (stats ?c1)\<lparr>totalTasks := totalTasks (stats ?c1) + 1\<rparr>\<rparr>"
  have c0: "attempts_inv (?c0\<lparr>promises := x\<rparr>)" for x
    using assms by (simp add: attempts_inv_def)
  have "attempts_inv ?c0"
    using assms by (simp add: attempts_inv_def)
  moreover have "attempts ?t = 0"
    by (simp add: task_config.extend_def queued_task.fields_def)
  ultimately have "attempts_inv ?c1"
    by (rule insertTaskByPriority_attempts_inv)
  then have c2: "attempts_inv ?c2"
    by (simp add: attempts_inv_def)
  show ?thesis
  proof (cases "\<not> truthy_string (task_id cfg) \<or> task_fn cfg = None")
    case True
    then show ?thesis
      using c0 by (simp add: addTask_def Let_def)
  next
    case valid: False
    then obtain f where f: "task_fn cfg = Some f" "truthy_string (task_id cfg)"
      by auto
    show ?thesis
    proof (cases "length (taskQueue ?c0) \<ge> maxQueueSize ?c0")
      case True
      with f show ?thesis
        using c0 by (simp add: addTask_def Let_def)
    next
      case False
      with f have "snd (addTask cfg now c) =
              (if isRunning ?c2 \<and> \<not> isPaused ?c2 then processNextTask now ?c2 else ?c2)"
        by (simp add: addTask_def Let_def)
      then show ?thesis
        using c2 processNextTask_attempts_inv [OF c2, of now]
        by (simp del: One_nat_def)
    qed
  qed
qed

lemma step_attempts_inv:
  assumes "attempts_inv c"
  shows "attempts_inv (step c ev)"
proof (cases ev)
  case (AddTask cfg now)
  with assms show ?thesis by (simp add: addTask_attempts_inv)
next
  case (Start now)
  have "attempts_inv (c\<lparr>isRunning := True, isPaused := False,
          stats := (stats c)\<lparr>startTime := Some now\<rparr>\<rparr>)"
    using assms by (simp add: attempts_inv_def)
  with assms show ?thesis
    by (simp add: Start start_def processNextTask_attempts_inv)
next
  case Pause
  with assms show ?thesis by (simp add: pause_def attempts_inv_def)
next
  case (Resume now)
  have "attempts_inv (c\<lparr>isPaused := False\<rparr>)"
    using assms by (simp add: attempts_inv_def)
  then show ?thesis
    by (simp add: Resume resume_def processNextTask_attempts_inv)
next
  case (Stop now)
  with assms show ?thesis
    by (simp add: stop_def attempts_inv_def list_all_fold_abort)
next
  case (CancelTask i)
  have "list_all (\<lambda>t. attempts t = 0) (taskQueue c)"
    using assms by (simp add: attempts_inv_def)
  then have "list_all (\<lambda>t. attempts t = 0) (take k (taskQueue c))
      \<and> list_all (\<lambda>t. attempts t = 0) (drop k (taskQueue c))" for k
    by (rule list_all_take_drop)
  with assms show ?thesis
    by (simp add: CancelTask cancelTask_def attempts_inv_def list_all_abort
        split: option.splits)
next
  case ClearQueue
  with assms show ?thesis by (simp add: clearQueue_def attempts_inv_def)
next
  case (TaskSettled h out now)
  show ?thesis
  proof (cases "map_of (executions c) h")
    case None
    with assms show ?thesis by (simp add: TaskSettled taskSettled_def)
  next
    case (Some e)
    have "list_all (\<lambda>e. attempts (ex_task e) = Suc 0) (map snd (executions c))"
      using assms by (simp add: attempts_inv_def)
    with Some have "attempts (ex_task e) = Suc 0"
      by (rule map_of_list_all)
    with Some assms show ?thesis
      by (simp add: TaskSettled taskSettled_def succeed_attempts_inv
          attemptFailed_attempts_inv split: outcome.splits)
  qed
next
  case (DelayDone h now)
  show ?thesis
  proof (cases "map_of (executions c) h")
    case None
    with assms show ?thesis by (simp add: DelayDone delayDone_def)
  next
    case (Some e)
    have "list_all (\<lambda>e. attempts (ex_task e) = Suc 0) (map snd (executions c))"
      using assms by (simp add: attempts_inv_def)
    with Some have e: "attempts (ex_task e) = Suc 0"
      by (rule map_of_list_all)
    have "attempts_inv (c\<lparr>executions := AList.update h
            (e\<lparr>attempt := attempt e + 1, phase := AwaitTask,
               invocations := invocations e + 1\<rparr>) (executions c)\<rparr>)"
      using assms e by (simp add: attempts_inv_def list_all_update)
    with Some assms e show ?thesis
      by (simp add: DelayDone delayDone_def Let_def fail_attempts_inv
          attemptFailed_attempts_inv)
  qed
next
  case (TimerFired h)
  show ?thesis
  proof (cases "map_of (executions c) h")
    case None
    with assms show ?thesis by (simp add: TimerFired timerFired_def)
  next
    case (Some e)
    have "list_all (\<lambda>e. attempts (ex_task e) = Suc 0) (map snd (executions c))"
      using assms by (simp add: attempts_inv_def)
    with Some have "attempts (ex_task e) = Suc 0"
      by (rule map_of_list_all)
    with Some assms show ?thesis
      by (simp add: TimerFired timerFired_def attempts_inv_def list_all_update)
  qed
qed

lemma run_attempts_inv: "attempts_inv (run (constructor opts) evs)"
proof (induction evs rule: rev_induct)
  case Nil
  show ?case by (simp add: run_def constructor_def attempts_inv_def)
next
  case (snoc ev evs)
  then show ?case by (simp add: run_snoc step_attempts_inv)
qed

text \<open>
  C3. In every state a new controller can reach, every recorded result has
  \<open>retryCount = 0\<close>, whatever the number of retries. A task with \<open>retries = 2\<close>
  whose function rejects every time: the function is called three times (after the
  second retry delay the counter of calls stands at 3), but \<open>task.attempts\<close> is
  incremented once, in \<open>executeTask\<close>, so that the result recorded after the third
  rejection has \<open>retryCount = 0\<close>, where the claim expects 2.
\<close>

theorem retryCount_stays_zero:
  "list_all (\<lambda>r. retryCount r = 0) (map snd (completedTasks (run (constructor opts) evs)))
   \<and> map (invocations \<circ> snd) (executions (run (constructor (options_with None None))
      [Start 0,
       AddTask (plain_task ''t'' None (Some 2)) 1,
       TaskSettled 0 (Reject ''e1'') 2, DelayDone 0 3,
       TaskSettled 0 (Reject ''e2'') 4, DelayDone 0 5]))
     = [3]
   \<and> map (success \<circ> snd)
       (completedTasks (run (constructor (options_with None None))
      [Start 0,
       AddTask (plain_task ''t'' None (Some 2)) 1,
       TaskSettled 0 (Reject ''e1'') 2, DelayDone 0 3,
       TaskSettled 0 (Reject ''e2'') 4, DelayDone 0 5,
       TaskSettled 0 (Reject ''e3'') 6]))
     = [False]
   \<and> map (retryCount \<circ> snd)
       (completedTasks (run (constructor (options_with None None))
      [Start 0,
       AddTask (plain_task ''t'' None (Some 2)) 1,
       TaskSettled 0 (Reject ''e1'') 2, DelayDone 0 3,
       TaskSettled 0 (Reject ''e2'') 4, DelayDone 0 5,
       TaskSettled 0 (Reject ''e3'') 6]))
     = [0]"
proof -
  have "attempts_inv (run (constructor opts) evs)"
    by (rule run_attempts_inv)
  then have "list_all (\<lambda>r. retryCount r = 0)
      (map snd (completedTasks (run (constructor opts) evs)))"
    by (simp add: attempts_inv_def)
  then show ?thesis
    by (simp add: controller_defs)
qed

end
